theory Spec2Isabelle
  imports Main "HOL-Library.Word"
begin

section \<open>printenvz: the environment dumper\<close>

text \<open>
  The program under study is \<^verbatim>\<open>vendor/printenvz/src/printenvz.c\<close>:
  \<^verbatim>\<open>
  int main(int argc, char *argv[], char *envp[]) {
      fprintf(stdout, "--printenvz--begin\n");
      for (char **env = envp; *env != NULL; ++env) {
          fprintf(stdout, "%s%c", *env, '\0');
      }
      fprintf(stdout, "\n--printenvz--end\n");
      return 0;
  }
  \<close>
  The embedding below keeps its three calls of \<open>fprintf\<close>, its loop over the
  NULL-terminated pointer array and its constant return value.
\<close>

subsection \<open>C data\<close>

text \<open>A C \<open>char\<close> is a byte; \<open>int\<close> is a 32-bit machine integer.\<close>

type_synonym cint = "32 word"

abbreviation NUL :: char where "NUL \<equiv> CHR 0x00"
abbreviation LF :: char where "LF \<equiv> CHR 0x0A"

text \<open>
  A value of type \<open>char *\<close>: either the null pointer, or a pointer into memory, given
  by the bytes that can be read from it onwards. The C string it denotes is the part
  before the first zero byte. \<open>char *argv[]\<close> and \<open>char *envp[]\<close> are arrays of such
  values, given by the cells that can be read from their start onwards.
\<close>

type_synonym cptr = "string option"

text \<open>Reads that leave the memory given are undefined behaviour in C; here they are faults.\<close>

datatype fault =
    Array_Overrun          \<comment> \<open>the pointer array has no NULL cell\<close>
  | String_Overrun         \<comment> \<open>the bytes of a \<open>%s\<close> argument hold no zero byte\<close>
  | Null_String            \<comment> \<open>a \<open>%s\<close> argument is the null pointer\<close>
  | Bad_Format             \<comment> \<open>a directive without a fitting argument, or an unknown one\<close>

datatype stream = Stdout | Stderr

subsection \<open>Formatted output\<close>

text \<open>The variadic arguments of \<open>fprintf\<close> that the program passes: a \<open>char *\<close> and an \<open>int\<close>.\<close>

datatype arg = PStr cptr | PInt cint

text \<open>
  The bytes that a format string produces. Ordinary characters are copied; \<open>%s\<close> copies
  its argument up to, and without, the first zero byte; \<open>%c\<close> writes its \<open>int\<close> argument
  converted to \<open>unsigned char\<close>; \<open>%%\<close> writes a percent sign.
\<close>

fun format :: "string \<Rightarrow> arg list \<Rightarrow> fault + string" where
  "format [] as = Inr []"
| "format [c] as = (if c = CHR ''%'' then Inl Bad_Format else Inr [c])"
| "format (c # d # fs) as =
     (if c \<noteq> CHR ''%'' then map_sum id ((#) c) (format (d # fs) as)
      else if d = CHR ''%'' then map_sum id ((#) d) (format fs as)
      else if d = CHR ''s'' then
        (case as of
           PStr (Some mem) # as' \<Rightarrow>
             (if NUL \<in> set mem
              then map_sum id ((@) (takeWhile (\<lambda>b. b \<noteq> NUL) mem)) (format fs as')
              else Inl String_Overrun)
         | PStr None # as' \<Rightarrow> Inl Null_String
         | _ \<Rightarrow> Inl Bad_Format)
      else if d = CHR ''c'' then
        (case as of
           PInt x # as' \<Rightarrow> map_sum id ((#) (char_of (unat x))) (format fs as')
         | _ \<Rightarrow> Inl Bad_Format)
      else Inl Bad_Format)"

text \<open>
  The stream layer below \<open>fprintf\<close> belongs to the platform, not to the program: it takes
  the stream, the formatted bytes and the state of the outside world, and answers with the
  value \<open>fprintf\<close> returns (the number of bytes, or a negative number when the write
  failed) and the new state of the world. The program is embedded for any such layer.
\<close>

type_synonym 'w writer = "stream \<Rightarrow> string \<Rightarrow> 'w \<Rightarrow> cint \<times> 'w"

definition fprintf :: "'w writer \<Rightarrow> stream \<Rightarrow> string \<Rightarrow> arg list \<Rightarrow> 'w \<Rightarrow> fault + (cint \<times> 'w)" where
  "fprintf wr f fmt as w =
     (case format fmt as of Inl e \<Rightarrow> Inl e | Inr bs \<Rightarrow> Inr (wr f bs w))"

subsection \<open>The program\<close>

text \<open>
  The loop \<^verbatim>\<open>for (char **env = envp; *env != NULL; ++env)\<close>: the argument is the array
  from \<open>env\<close> onwards, \<open>++env\<close> is its tail. The value that \<open>fprintf\<close> returns is dropped.
\<close>

fun env_loop :: "'w writer \<Rightarrow> cptr list \<Rightarrow> 'w \<Rightarrow> fault + 'w" where
  "env_loop wr [] w = Inl Array_Overrun"
| "env_loop wr (None # env) w = Inr w"
| "env_loop wr (Some mem # env) w =
     (case fprintf wr Stdout ''%s%c'' [PStr (Some mem), PInt 0] w of
        Inl e \<Rightarrow> Inl e
      | Inr (r, w') \<Rightarrow> env_loop wr env w')"

definition main :: "'w writer \<Rightarrow> cint \<Rightarrow> cptr list \<Rightarrow> cptr list \<Rightarrow> 'w \<Rightarrow> fault + (cint \<times> 'w)" where
  "main wr argc argv envp w =
     (case fprintf wr Stdout (''--printenvz--begin'' @ [LF]) [] w of
        Inl e \<Rightarrow> Inl e
      | Inr (r1, w1) \<Rightarrow>
     (case env_loop wr envp w1 of
        Inl e \<Rightarrow> Inl e
      | Inr w2 \<Rightarrow>
     (case fprintf wr Stdout (LF # ''--printenvz--end'' @ [LF]) [] w2 of
        Inl e \<Rightarrow> Inl e
      | Inr (r3, w3) \<Rightarrow> Inr (0, w3))))"

subsection \<open>The platform\<close>

text \<open>
  How the host hands an environment list to the process: one zero-terminated string per
  entry, and a NULL cell after the last pointer.
\<close>

definition envp_of :: "string list \<Rightarrow> cptr list" where
  "envp_of es = map (\<lambda>e. Some (e @ [NUL])) es @ [None]"

text \<open>An environment entry is a C string: it holds no zero byte.\<close>

definition c_string :: "string \<Rightarrow> bool" where
  "c_string e = (NUL \<notin> set e)"

text \<open>
  A stream layer on which every write succeeds. The world is the record of the writes the
  process has made so far, in order, each with its stream.
\<close>

type_synonym trace = "(stream \<times> string) list"

definition emit :: "trace writer" where
  "emit f bs t = (word_of_nat (length bs), t @ [(f, bs)])"

text \<open>The bytes that have reached one stream.\<close>

definition written :: "stream \<Rightarrow> trace \<Rightarrow> string" where
  "written f t = concat (map snd (filter (\<lambda>ev. fst ev = f) t))"

text \<open>A stream layer on which every write fails, as on a closed pipe: nothing is recorded.\<close>

definition refuse :: "trace writer" where
  "refuse f bs t = (- 1, t)"

text \<open>What a run leaves on standard output, when it returns.\<close>

definition stdout_bytes :: "fault + (cint \<times> trace) \<Rightarrow> string option" where
  "stdout_bytes r = (case r of Inl e \<Rightarrow> None | Inr (c, t) \<Rightarrow> Some (written Stdout t))"

subsection \<open>The reader of the output\<close>

text \<open>
  The consumer's side of the format, used to state what can be recovered from the
  output: the region between the two marker lines, and the zero-terminated entries of a
  region (bytes after the last zero byte belong to no entry).
\<close>

definition between_markers :: "string \<Rightarrow> string option" where
  "between_markers out =
     (let b = ''--printenvz--begin'' @ [LF]; e = LF # ''--printenvz--end'' @ [LF]
      in if length b + length e \<le> length out \<and> take (length b) out = b
            \<and> drop (length out - length e) out = e
         then Some (take (length out - length b - length e) (drop (length b) out))
         else None)"

fun entries :: "string \<Rightarrow> string list" where
  "entries [] = []"
| "entries (c # cs) =
     (if c = NUL then [] # entries cs
      else (case entries cs of [] \<Rightarrow> [] | e # es \<Rightarrow> (c # e) # es))"

definition decode :: "string \<Rightarrow> string list option" where
  "decode out = map_option entries (between_markers out)"

text \<open>Where the \<open>i\<close>-th entry starts in the output: after the begin line and the entries before it.\<close>

definition entry_offset :: "string list \<Rightarrow> nat \<Rightarrow> nat" where
  "entry_offset es i =
     length (''--printenvz--begin'' @ [LF]) + sum_list (map (\<lambda>e. Suc (length e)) (take i es))"

section \<open>Formatting\<close>

lemma char_of_zero: "char_of (0::nat) = NUL"
  by (simp add: char_of_def)

lemma format_begin:
  "format (''--printenvz--begin'' @ [LF]) as = Inr (''--printenvz--begin'' @ [LF])"
  by simp

lemma format_end:
  "format (LF # ''--printenvz--end'' @ [LF]) as = Inr (LF # ''--printenvz--end'' @ [LF])"
  by simp

lemma format_entry:
  "format ''%s%c'' [PStr (Some mem), PInt 0] =
     (if NUL \<in> set mem then Inr (takeWhile (\<lambda>b. b \<noteq> NUL) mem @ [NUL])
      else Inl String_Overrun)"
  by (simp add: char_of_zero)

lemma takeWhile_terminated:
  "takeWhile (\<lambda>b. b \<noteq> NUL) (e @ [NUL]) = takeWhile (\<lambda>b. b \<noteq> NUL) e"
  by (induction e) simp_all

lemma takeWhile_c_string: "c_string e \<Longrightarrow> takeWhile (\<lambda>b. b \<noteq> NUL) e = e"
  by (induction e) (auto simp add: c_string_def)

lemma map_c_strings:
  "list_all c_string es \<Longrightarrow>
   map (\<lambda>e. takeWhile (\<lambda>b. b \<noteq> NUL) e @ [NUL]) es = map (\<lambda>e. e @ [NUL]) es"
  by (induction es) (simp_all add: takeWhile_c_string)

section \<open>The loop and the program, on any stream layer\<close>

text \<open>
  On an array the host has laid out (whatever follows its NULL cell), the loop makes one
  write per entry, in order, and returns.
\<close>

lemma env_loop_envp_of:
  "env_loop wr (envp_of es @ rest) w =
     Inr (fold (\<lambda>e w. snd (wr Stdout (takeWhile (\<lambda>b. b \<noteq> NUL) e @ [NUL]) w)) es w)"
proof (induction es arbitrary: w)
  case Nil
  show ?case by (simp add: envp_of_def)
next
  case (Cons e es)
  have step: "fprintf wr Stdout ''%s%c'' [PStr (Some (e @ [NUL])), PInt 0] w =
      Inr (wr Stdout (takeWhile (\<lambda>b. b \<noteq> NUL) e @ [NUL]) w)"
    unfolding fprintf_def format_entry by (simp add: takeWhile_terminated)
  have "env_loop wr (envp_of (e # es) @ rest) w =
      env_loop wr (envp_of es @ rest)
        (snd (wr Stdout (takeWhile (\<lambda>b. b \<noteq> NUL) e @ [NUL]) w))"
    using step by (simp add: envp_of_def split: prod.splits)
  then show ?case using Cons.IH by simp
qed

lemma main_envp_of:
  "main wr argc argv (envp_of es @ rest) w =
     Inr (0, snd (wr Stdout (LF # ''--printenvz--end'' @ [LF])
        (fold (\<lambda>e w. snd (wr Stdout (takeWhile (\<lambda>b. b \<noteq> NUL) e @ [NUL]) w)) es
           (snd (wr Stdout (''--printenvz--begin'' @ [LF]) w)))))"
  unfolding main_def fprintf_def format_begin format_end
  by (simp add: env_loop_envp_of split: prod.splits)

text \<open>An array without a NULL cell, or a string without a zero byte, is a fault.\<close>

lemma env_loop_faults:
  "env_loop wr [] w = Inl Array_Overrun"
  "env_loop wr [Some ''A=1''] w = Inl String_Overrun"
  "env_loop wr [Some (''A=1'' @ [NUL])] w = Inl Array_Overrun"
  by (simp_all add: fprintf_def split: prod.splits)

text \<open>The program reaches the stream layer on standard output only.\<close>

lemma fprintf_stdout_only:
  assumes "\<And>bs w. wr Stdout bs w = wr' Stdout bs w"
  shows "fprintf wr Stdout fmt as w = fprintf wr' Stdout fmt as w"
  by (simp add: fprintf_def assms split: sum.splits)

lemma env_loop_stdout_only:
  assumes "\<And>bs w. wr Stdout bs w = wr' Stdout bs w"
  shows "env_loop wr envp w = env_loop wr' envp w"
proof -
  have f: "fprintf wr Stdout fmt as v = fprintf wr' Stdout fmt as v" for fmt as v
    using assms by (rule fprintf_stdout_only)
  show ?thesis
  proof (induction envp arbitrary: w)
    case Nil
    show ?case by simp
  next
    case (Cons p envp)
    show ?case
    proof (cases p)
      case None
      then show ?thesis by simp
    next
      case (Some mem)
      then show ?thesis
        using Cons.IH by (simp add: f split: sum.splits prod.splits)
    qed
  qed
qed

lemma main_stdout_only:
  assumes "\<And>bs w. wr Stdout bs w = wr' Stdout bs w"
  shows "main wr argc argv envp w = main wr' argc argv envp w"
proof -
  have f: "fprintf wr Stdout fmt as v = fprintf wr' Stdout fmt as v" for fmt as v
    using assms by (rule fprintf_stdout_only)
  have e: "env_loop wr envp v = env_loop wr' envp v" for v
    using assms by (rule env_loop_stdout_only)
  show ?thesis
    unfolding main_def f e ..
qed

section \<open>The program on a stream layer that accepts every write\<close>

lemma fold_emit:
  "fold (\<lambda>e t. snd (emit Stdout (g e) t)) es t = t @ map (\<lambda>e. (Stdout, g e)) es"
  by (induction es arbitrary: t) (simp_all add: emit_def)

lemma main_emit:
  "main emit argc argv (envp_of es @ rest) t =
     Inr (0, t @ (Stdout, ''--printenvz--begin'' @ [LF])
               # map (\<lambda>e. (Stdout, takeWhile (\<lambda>b. b \<noteq> NUL) e @ [NUL])) es
               @ [(Stdout, LF # ''--printenvz--end'' @ [LF])])"
  unfolding main_envp_of fold_emit by (simp add: emit_def)

lemma fold_refuse: "fold (\<lambda>e t. snd (refuse Stdout (g e) t)) es t = t"
  by (induction es arbitrary: t) (simp_all add: refuse_def)

lemma written_append: "written f (t @ u) = written f t @ written f u"
  by (simp add: written_def)

lemma written_Stdout_map: "written Stdout (map (\<lambda>e. (Stdout, g e)) es) = concat (map g es)"
  by (induction es) (simp_all add: written_def)

lemma written_Stderr_map: "written Stderr (map (\<lambda>e. (Stdout, g e)) es) = []"
  by (induction es) (simp_all add: written_def)

lemma stdout_bytes_main:
  "list_all c_string es \<Longrightarrow>
   stdout_bytes (main emit argc argv (envp_of es) []) =
     Some (''--printenvz--begin'' @ [LF] @ concat (map (\<lambda>e. e @ [NUL]) es)
           @ [LF] @ ''--printenvz--end'' @ [LF])"
  using main_emit [of argc argv es "[]" "[]"]
  by (simp add: stdout_bytes_def written_def map_c_strings [symmetric] comp_def)

section \<open>Reading the output back\<close>

lemma between_markers_frame:
  "between_markers (''--printenvz--begin'' @ [LF] @ body @ [LF] @ ''--printenvz--end'' @ [LF])
     = Some body"
  by (simp add: between_markers_def)

lemma entries_terminated: "c_string e \<Longrightarrow> entries (e @ NUL # rest) = e # entries rest"
  by (induction e) (auto simp add: c_string_def)

lemma entries_block:
  "list_all c_string es \<Longrightarrow> entries (concat (map (\<lambda>e. e @ [NUL]) es)) = es"
  by (induction es) (simp_all add: entries_terminated)

lemma length_block:
  "length (concat (map (\<lambda>e. e @ [NUL]) es)) = sum_list (map (\<lambda>e. Suc (length e)) es)"
  by (induction es) simp_all

lemma count_block:
  "list_all c_string es \<Longrightarrow> count_list (concat (map (\<lambda>e. e @ [NUL]) es)) NUL = length es"
proof (induction es)
  case Nil
  show ?case by simp
next
  case (Cons e es)
  have "count_list e NUL = 0" using Cons.prems by (simp add: c_string_def)
  then show ?case using Cons by simp
qed

lemma slice_block:
  assumes "i < length es"
  shows "drop (sum_list (map (\<lambda>e. Suc (length e)) (take i es)))
           (concat (map (\<lambda>e. e @ [NUL]) es) @ after)
         = es ! i @ NUL # concat (map (\<lambda>e. e @ [NUL]) (drop (Suc i) es)) @ after"
proof -
  have "es = take i es @ es ! i # drop (Suc i) es"
    using assms by (rule id_take_nth_drop)
  then have "concat (map (\<lambda>e. e @ [NUL]) es) =
      concat (map (\<lambda>e. e @ [NUL]) (take i es)) @ (es ! i @ [NUL])
        @ concat (map (\<lambda>e. e @ [NUL]) (drop (Suc i) es))"
    by (metis concat.simps(2) concat_append list.simps(9) map_append)
  then show ?thesis
    by (simp add: length_block [symmetric])
qed

section \<open>The properties of the specification\<close>

text \<open>
  C1. For every environment list of C strings, the bytes that a run leaves on standard
  output, on a stream layer that accepts every write, are the begin line, then each entry
  followed by one zero byte and nothing else, then a newline, then the end line with its
  newline.
\<close>

theorem main_stdout_exact:
  assumes "list_all c_string es"
  shows "stdout_bytes (main emit argc argv (envp_of es) []) =
     Some (''--printenvz--begin'' @ [LF] @ concat (map (\<lambda>e. e @ [NUL]) es)
           @ [LF] @ ''--printenvz--end'' @ [LF])"
  using assms by (rule stdout_bytes_main)

text \<open>The scenario of the specification: \<open>PATH=/usr/bin\<close> and \<open>HOME=/home/u\<close>, in that order.\<close>

theorem main_stdout_exact_witness:
  "list_all c_string [''PATH=/usr/bin'', ''HOME=/home/u''] \<and>
   stdout_bytes (main emit 1 [Some (''printenvz'' @ [NUL]), None]
       (envp_of [''PATH=/usr/bin'', ''HOME=/home/u'']) []) =
     Some (''--printenvz--begin'' @ [LF] @ ''PATH=/usr/bin'' @ [NUL] @ ''HOME=/home/u'' @ [NUL]
           @ [LF] @ ''--printenvz--end'' @ [LF])"
proof -
  have h: "list_all c_string [''PATH=/usr/bin'', ''HOME=/home/u'']"
    by (simp add: c_string_def)
  show ?thesis
    using h main_stdout_exact [OF h, of 1 "[Some (''printenvz'' @ [NUL]), None]"] by simp
qed

text \<open>
  C2. With an empty environment list the output is the begin line, the newline that
  closes the (empty) block of entries, and the end line: no entry bytes in between.
\<close>

theorem main_empty_environment:
  "stdout_bytes (main emit argc argv (envp_of []) []) =
     Some (''--printenvz--begin'' @ [LF, LF] @ ''--printenvz--end'' @ [LF])"
  using main_emit [of argc argv "[]" "[]" "[]"]
  by (simp add: stdout_bytes_def written_def)

text \<open>
  C3. For an environment list of \<open>n\<close> C strings, the region between the marker lines
  holds exactly \<open>n\<close> zero-terminated entries, and exactly \<open>n\<close> zero bytes.
\<close>

theorem entry_count:
  assumes "list_all c_string es"
  shows "\<exists>out body. stdout_bytes (main emit argc argv (envp_of es) []) = Some out
           \<and> between_markers out = Some body
           \<and> length (entries body) = length es
           \<and> count_list body NUL = length es"
  using stdout_bytes_main [OF assms, of argc argv] between_markers_frame
    entries_block [OF assms] count_block [OF assms]
  by (metis)

text \<open>Three entries, one of them with an empty value.\<close>

theorem entry_count_witness:
  "list_all c_string [''PATH=/usr/bin'', ''HOME=/home/u'', ''EMPTY=''] \<and>
   (\<exists>out body. stdout_bytes (main emit 1 [Some (''printenvz'' @ [NUL]), None]
       (envp_of [''PATH=/usr/bin'', ''HOME=/home/u'', ''EMPTY='']) []) = Some out
           \<and> between_markers out = Some body
           \<and> length (entries body) = 3
           \<and> count_list body NUL = 3)"
proof -
  let ?es = "[''PATH=/usr/bin'', ''HOME=/home/u'', ''EMPTY='']"
  have h: "list_all c_string ?es"
    by (simp add: c_string_def)
  have n: "length ?es = 3" by simp
  show ?thesis
    using h entry_count [OF h, of 1 "[Some (''printenvz'' @ [NUL]), None]"]
    unfolding n by blast
qed

text \<open>
  C4. The entries appear in the order of the environment list: the \<open>i\<close>-th
  zero-terminated entry read from the region between the marker lines is the \<open>i\<close>-th
  element of the list.
\<close>

theorem entry_order:
  assumes "list_all c_string es" and "i < length es"
  shows "\<exists>out body. stdout_bytes (main emit argc argv (envp_of es) []) = Some out
           \<and> between_markers out = Some body
           \<and> entries body ! i = es ! i"
  using stdout_bytes_main [OF assms(1), of argc argv] between_markers_frame
    entries_block [OF assms(1)]
  by (metis)

text \<open>The second entry of the scenario.\<close>

theorem entry_order_witness:
  "list_all c_string [''PATH=/usr/bin'', ''HOME=/home/u''] \<and> (1::nat) < length [''PATH=/usr/bin'', ''HOME=/home/u''] \<and>
   (\<exists>out body. stdout_bytes (main emit 1 [Some (''printenvz'' @ [NUL]), None]
       (envp_of [''PATH=/usr/bin'', ''HOME=/home/u'']) []) = Some out
           \<and> between_markers out = Some body
           \<and> entries body ! 1 = ''HOME=/home/u'')"
proof -
  have h: "list_all c_string [''PATH=/usr/bin'', ''HOME=/home/u'']"
    by (simp add: c_string_def)
  have i: "(1::nat) < length [''PATH=/usr/bin'', ''HOME=/home/u'']" by simp
  show ?thesis
    using h entry_order [OF h i, of 1 "[Some (''printenvz'' @ [NUL]), None]"] by simp
qed

text \<open>
  C5. The text of the \<open>i\<close>-th entry is in the output byte for byte: the bytes of the
  output from the place where the \<open>i\<close>-th entry starts, as many as the entry is long,
  are the entry itself, and the byte after them is the zero byte.
\<close>

theorem entry_fidelity:
  assumes cs: "list_all c_string es" and i: "i < length es"
  shows "\<exists>out. stdout_bytes (main emit argc argv (envp_of es) []) = Some out \<and>
     take (length (es ! i)) (drop (entry_offset es i) out) = es ! i \<and>
     out ! (entry_offset es i + length (es ! i)) = NUL"
proof -
  let ?out = "''--printenvz--begin'' @ [LF] @ concat (map (\<lambda>e. e @ [NUL]) es) @ [LF] @ ''--printenvz--end'' @ [LF]"
  let ?after = "[LF] @ ''--printenvz--end'' @ [LF]"
  have d: "drop (entry_offset es i) ?out = es ! i @ NUL # concat (map (\<lambda>e. e @ [NUL]) (drop (Suc i) es)) @ ?after"
    using slice_block [OF i, of ?after] by (simp add: entry_offset_def)
  have le: "entry_offset es i + length (es ! i) < length ?out"
  proof -
    have "length (drop (entry_offset es i) ?out) > length (es ! i)"
      unfolding d by simp
    then show ?thesis by simp
  qed
  have "?out ! (entry_offset es i + length (es ! i)) = drop (entry_offset es i) ?out ! length (es ! i)"
    using le by (simp add: nth_drop)
  also have "\<dots> = NUL" unfolding d by (simp add: nth_append)
  finally have n: "?out ! (entry_offset es i + length (es ! i)) = NUL" .
  have t: "take (length (es ! i)) (drop (entry_offset es i) ?out) = es ! i"
    unfolding d by simp
  show ?thesis
    using stdout_bytes_main [OF cs, of argc argv] n t by blast
qed

text \<open>In the scenario the second entry is the 12 bytes from offset 33, closed at offset 45.\<close>

theorem entry_fidelity_witness:
  "list_all c_string [''PATH=/usr/bin'', ''HOME=/home/u''] \<and>
   (1::nat) < length [''PATH=/usr/bin'', ''HOME=/home/u''] \<and>
   (\<exists>out. stdout_bytes (main emit 1 [Some (''printenvz'' @ [NUL]), None]
       (envp_of [''PATH=/usr/bin'', ''HOME=/home/u'']) []) = Some out \<and>
     take 12 (drop 33 out) = ''HOME=/home/u'' \<and> out ! 45 = NUL)"
proof -
  let ?es = "[''PATH=/usr/bin'', ''HOME=/home/u'']"
  have h: "list_all c_string ?es"
    by (simp add: c_string_def)
  have i: "(1::nat) < length ?es" by simp
  have o: "entry_offset ?es 1 = 33"
    by (simp add: entry_offset_def)
  have l: "length (?es ! 1) = 12" by simp
  have e: "?es ! 1 = ''HOME=/home/u''" by simp
  have a: "(33::nat) + 12 = 45" by simp
  show ?thesis
    using h i entry_fidelity [OF h i, of 1 "[Some (''printenvz'' @ [NUL]), None]"]
    unfolding o l a unfolding e by blast
qed

text \<open>
  C6. For every environment list and all command-line arguments the program returns, and
  its exit code is 0, whatever the stream layer does with the writes and whatever it
  answers; in particular on the layer that refuses every write, where nothing is written.
\<close>

theorem exit_code_zero:
  "(\<exists>w'. main wr argc argv (envp_of es) w = Inr (0, w'))
   \<and> main refuse argc argv (envp_of es) t = Inr (0, t)"
proof
  show "\<exists>w'. main wr argc argv (envp_of es) w = Inr (0, w')"
    using main_envp_of [of wr argc argv es "[]" w] by simp
  show "main refuse argc argv (envp_of es) t = Inr (0, t)"
    using main_envp_of [of refuse argc argv es "[]" t]
    by (simp add: fold_refuse) (simp add: refuse_def)
qed

text \<open>
  C7. Every write of the program names standard output: a run adds its \<open>n + 2\<close> writes
  to the record of the world, all of them on \<open>Stdout\<close>, and leaves the bytes on standard
  error as they were. The exit code is the only other component of the result.
\<close>

theorem writes_only_stdout:
  "\<exists>t'. main emit argc argv (envp_of es) t = Inr (0, t @ t')
      \<and> map fst t' = replicate (length es + 2) Stdout
      \<and> written Stderr (t @ t') = written Stderr t"
proof -
  let ?t' = "(Stdout, ''--printenvz--begin'' @ [LF])
               # map (\<lambda>e. (Stdout, takeWhile (\<lambda>b. b \<noteq> NUL) e @ [NUL])) es
               @ [(Stdout, LF # ''--printenvz--end'' @ [LF])]"
  have m: "main emit argc argv (envp_of es) t = Inr (0, t @ ?t')"
    using main_emit [of argc argv es "[]" t] by simp
  have f: "map fst ?t' = replicate (length es + 2) Stdout"
    by (simp add: comp_def map_replicate_const replicate_append_same)
  have "written Stderr ?t' = []"
    using written_Stderr_map [of "\<lambda>e. takeWhile (\<lambda>b. b \<noteq> NUL) e @ [NUL]" es]
    by (simp add: written_def)
  then have e: "written Stderr (t @ ?t') = written Stderr t"
    by (simp add: written_append)
  show ?thesis using m f e by blast
qed

text \<open>
  C8. The result of the program, the exit code and the state of the world alike, does not
  depend on \<open>argc\<close> and \<open>argv\<close>: two runs that differ in them only are equal.
\<close>

theorem main_ignores_arguments:
  "main wr argc argv envp w = main wr argc' argv' envp w"
  by (simp add: main_def)

text \<open>
  C9. On every finite NULL-terminated environment array (whatever lies behind the NULL
  cell) the program returns a result rather than a fault, and the loop makes exactly one
  write per entry before it stops at the NULL cell.
\<close>

theorem main_terminates:
  "(\<exists>r. main wr argc argv (envp_of es @ rest) w = Inr r)
   \<and> (\<exists>t. env_loop emit (envp_of es @ rest) [] = Inr t \<and> length t = length es)"
  by (simp add: main_envp_of env_loop_envp_of fold_emit)

text \<open>
  C10. The encoding is invertible: for every list of C strings, splitting the region
  between the begin line and the newline before the end line at the zero bytes gives back
  the environment list.
\<close>

theorem decode_roundtrip:
  assumes "list_all c_string es"
  shows "\<exists>out. stdout_bytes (main emit argc argv (envp_of es) []) = Some out
           \<and> decode out = Some es"
  using stdout_bytes_main [OF assms, of argc argv] between_markers_frame
    entries_block [OF assms]
  by (simp add: decode_def)

text \<open>Also when a value holds the text of the end line, or an entry is empty.\<close>

theorem decode_roundtrip_witness:
  "list_all c_string [''PATH=/usr/bin'', ''V='' @ [LF] @ ''--printenvz--end'' @ [LF], [], ''HOME=/home/u''] \<and>
   (\<exists>out. stdout_bytes (main emit 1 [Some (''printenvz'' @ [NUL]), None]
       (envp_of [''PATH=/usr/bin'', ''V='' @ [LF] @ ''--printenvz--end'' @ [LF], [], ''HOME=/home/u'']) []) = Some out
           \<and> decode out = Some [''PATH=/usr/bin'', ''V='' @ [LF] @ ''--printenvz--end'' @ [LF], [], ''HOME=/home/u''])"
proof -
  have h: "list_all c_string [''PATH=/usr/bin'', ''V='' @ [LF] @ ''--printenvz--end'' @ [LF], [], ''HOME=/home/u'']"
    by (simp add: c_string_def)
  show ?thesis
    using h decode_roundtrip [OF h, of 1 "[Some (''printenvz'' @ [NUL]), None]"] by simp
qed

end
